theory Spec2Isabelle
  imports Main "HOL-Library.Char_ord" "HOL-Library.List_Lexorder" "HOL-Library.Multiset"
begin

section \<open>The transaction sync loop of the \<open>/transactions\<close> route\<close>

text \<open>
  The route handler drains Plaid's cursor-paginated \<open>transactionsSync\<close> endpoint with a
  \<open>while (hasMore)\<close> loop and answers with the eight most recent added transactions.

  A cursor is \<open>null\<close> (\<open>None\<close>) or a string issued by the provider. A transaction is
  modelled by the two fields the handler can tell apart: its id and its date, an ISO date
  string that JavaScript's comparison operators order lexicographically by character
  code.
\<close>

type_synonym cursor = "string option"

record txn =
  transaction_id :: string
  date :: string

text \<open>The object sent with one \<open>transactionsSync\<close> call.\<close>

record request =
  access_token :: string
  cursor :: cursor

text \<open>\<open>response.data\<close> of one call: one page of the changefeed.\<close>

record ('t, 'r) data =
  added :: "'t list"
  modified :: "'t list"
  removed :: "'r list"
  has_more :: bool
  next_cursor :: cursor

text \<open>
  The handler's local variables \<open>cursor\<close>, \<open>added\<close>, \<open>modified\<close>, \<open>removed\<close> and
  \<open>hasMore\<close>. The three accumulators carry the prefix \<open>acc_\<close> and the cursor variable is
  \<open>cur\<close>, because the field names of the page and of the request are taken.
\<close>

record ('t, 'r) locals =
  cur :: cursor
  acc_added :: "'t list"
  acc_modified :: "'t list"
  acc_removed :: "'r list"
  hasMore :: bool

definition init :: "('t, 'r) locals" where
  "init = \<lparr>cur = None, acc_added = [], acc_modified = [], acc_removed = [], hasMore = True\<rparr>"

text \<open>
  The remote client is outside the program. It is a parameter: \<open>client k rq\<close> is the
  outcome of the call that is issued after \<open>k\<close> earlier calls, with request \<open>rq\<close>; \<open>Inl e\<close>
  is a rejected promise. The list of requests issued so far is the only trace the loop
  leaves in the world, and it survives an exception, unlike the local variables.
\<close>

type_synonym ('e, 't, 'r) sync_client = "nat \<Rightarrow> request \<Rightarrow> 'e + ('t, 'r) data"

text \<open>
  One run of the loop body: one request, and on success the merge of the page. The
  console output of \<open>prettyPrintResponse\<close> is left out.
\<close>

definition sync_page ::
  "('e, 't, 'r) sync_client \<Rightarrow> string \<Rightarrow> ('t, 'r) locals \<Rightarrow> request list
    \<Rightarrow> ('e + ('t, 'r) locals) \<times> request list" where
  "sync_page client token s log =
     (let request = \<lparr>access_token = token, cursor = cur s\<rparr> in
      case client (length log) request of
        Inl e \<Rightarrow> (Inl e, log @ [request])
      | Inr data \<Rightarrow>
          (Inr \<lparr>cur = next_cursor data,
                acc_added = acc_added s @ added data,
                acc_modified = acc_modified s @ modified data,
                acc_removed = acc_removed s @ removed data,
                hasMore = has_more data\<rparr>,
           log @ [request]))"

text \<open>
  \<open>while (hasMore) { ... }\<close>. The loop has no bound of its own: a provider that always
  reports \<open>has_more\<close> keeps it running, and then the result is \<open>None\<close>.
\<close>

partial_function (option) sync_loop ::
  "('e, 't, 'r) sync_client \<Rightarrow> string \<Rightarrow> ('t, 'r) locals \<Rightarrow> request list
    \<Rightarrow> (('e + ('t, 'r) locals) \<times> request list) option" where
  "sync_loop client token s log =
     (if hasMore s then
        (case sync_page client token s log of
           (Inl e, log') \<Rightarrow> Some (Inl e, log')
         | (Inr s', log') \<Rightarrow> sync_loop client token s' log')
      else Some (Inr s, log))"

subsection \<open>The response: the eight most recent added transactions\<close>

definition compareTxnsByDateAscending :: "txn \<Rightarrow> txn \<Rightarrow> int" where
  "compareTxnsByDateAscending a b = of_bool (date a > date b) - of_bool (date a < date b)"

text \<open>
  \<open>Array.prototype.sort\<close> with a comparator is a stable sort: an element goes before the
  first element it does not compare greater than.
\<close>

fun insert_cmp :: "('a \<Rightarrow> 'a \<Rightarrow> int) \<Rightarrow> 'a \<Rightarrow> 'a list \<Rightarrow> 'a list" where
  "insert_cmp cmp x [] = [x]"
| "insert_cmp cmp x (y # ys) = (if cmp x y \<le> 0 then x # y # ys else y # insert_cmp cmp x ys)"

definition sort_cmp :: "('a \<Rightarrow> 'a \<Rightarrow> int) \<Rightarrow> 'a list \<Rightarrow> 'a list" where
  "sort_cmp cmp xs = foldr (insert_cmp cmp) xs []"

text \<open>
  Arrays are objects: \<open>sort\<close> reorders its receiver in place, the spread \<open>[...added]\<close> and
  \<open>slice\<close> build a new array. The store is the list of the arrays allocated so far, an
  address is an index into it.
\<close>

type_synonym 'a store = "'a list list"

definition spread :: "nat \<Rightarrow> 'a store \<Rightarrow> nat \<times> 'a store" where
  "spread a h = (length h, h @ [h ! a])"

definition sort_in_place :: "('a \<Rightarrow> 'a \<Rightarrow> int) \<Rightarrow> nat \<Rightarrow> 'a store \<Rightarrow> nat \<times> 'a store" where
  "sort_in_place cmp a h = (a, h[a := sort_cmp cmp (h ! a)])"

text \<open>\<open>slice(-n)\<close>: the last \<open>n\<close> elements, all of them when there are fewer.\<close>

definition slice_last :: "nat \<Rightarrow> nat \<Rightarrow> 'a store \<Rightarrow> nat \<times> 'a store" where
  "slice_last n a h = (length h, h @ [drop (length (h ! a) - n) (h ! a)])"

definition recently_added :: "nat \<Rightarrow> txn store \<Rightarrow> nat \<times> txn store" where
  "recently_added added_ref h =
     (let (copy, h1) = spread added_ref h;
          (sorted, h2) = sort_in_place compareTxnsByDateAscending copy h1
      in slice_last 8 sorted h2)"

text \<open>
  The handler. \<open>token_row\<close> is what \<open>AccessToken.findOne\<close> found, a row or \<open>null\<close>; a
  lookup that fails itself is not part of the model. What is thrown inside the handler
  goes to \<open>next\<close> (\<open>Inl\<close>); otherwise the JSON body is sent.
\<close>

datatype 'e failure = Error string | Thrown 'e

record body =
  latest_transactions :: "txn list"

definition transactions_route ::
  "string option \<Rightarrow> ('e, txn, 'r) sync_client \<Rightarrow> (('e failure + body) \<times> request list) option" where
  "transactions_route token_row client =
     (case token_row of
        None \<Rightarrow> Some (Inl (Error ''No access token found''), [])
      | Some token \<Rightarrow>
          Option.bind (sync_loop client token init [])
            (\<lambda>(r, log). case r of
                Inl e \<Rightarrow> Some (Inl (Thrown e), log)
              | Inr s \<Rightarrow>
                  (let (ref, h) = recently_added 0 [acc_added s]
                   in Some (Inr \<lparr>latest_transactions = h ! ref\<rparr>, log))))"

subsection \<open>What a run is compared with\<close>

text \<open>
  The cursors that drain a list of pages, starting from \<open>c\<close>: the first request carries
  \<open>c\<close>, each later one the \<open>next_cursor\<close> of the page before it.
\<close>

fun cursors_sent :: "cursor \<Rightarrow> ('t, 'r) data list \<Rightarrow> cursor list" where
  "cursors_sent c [] = []"
| "cursors_sent c (p # ps) = c # cursors_sent (next_cursor p) ps"

definition requests_sent :: "string \<Rightarrow> cursor \<Rightarrow> ('t, 'r) data list \<Rightarrow> request list" where
  "requests_sent token c ps = map (\<lambda>c. \<lparr>access_token = token, cursor = c\<rparr>) (cursors_sent c ps)"

text \<open>The local variables after the pages \<open>ps\<close> have been merged into \<open>s\<close>, in order.\<close>

definition merge_pages :: "('t, 'r) locals \<Rightarrow> ('t, 'r) data list \<Rightarrow> ('t, 'r) locals" where
  "merge_pages s ps =
     \<lparr>cur = last (cur s # map next_cursor ps),
      acc_added = acc_added s @ concat (map added ps),
      acc_modified = acc_modified s @ concat (map modified ps),
      acc_removed = acc_removed s @ concat (map removed ps),
      hasMore = last (hasMore s # map has_more ps)\<rparr>"

text \<open>
  A request log is chained when its first request carries the \<open>null\<close> cursor and every
  later one the \<open>next_cursor\<close> that the call before it returned. The loop invariant adds
  that the variable \<open>cursor\<close> holds what the next request has to carry.
\<close>

definition chained :: "('e, 't, 'r) sync_client \<Rightarrow> request list \<Rightarrow> bool" where
  "chained client log \<longleftrightarrow>
     (log \<noteq> [] \<longrightarrow> cursor (log ! 0) = None) \<and>
     (\<forall>k<length log - 1.
        case client k (log ! k) of
          Inl e \<Rightarrow> False
        | Inr d \<Rightarrow> cursor (log ! Suc k) = next_cursor d)"

definition cursor_inv :: "('e, 't, 'r) sync_client \<Rightarrow> ('t, 'r) locals \<Rightarrow> request list \<Rightarrow> bool" where
  "cursor_inv client s log \<longleftrightarrow>
     chained client log \<and>
     (if log = [] then cur s = None
      else case client (length log - 1) (last log) of
             Inl e \<Rightarrow> False
           | Inr d \<Rightarrow> cur s = next_cursor d)"

text \<open>
  A feed of three pages, served by cursor, and a provider that fails after the first page.
\<close>

definition txn_A :: txn where
  "txn_A = \<lparr>transaction_id = ''A'', date = ''2023-03-02''\<rparr>"

definition txn_B :: txn where
  "txn_B = \<lparr>transaction_id = ''B'', date = ''2023-01-15''\<rparr>"

definition page1 :: "(txn, string) data" where
  "page1 = \<lparr>added = [txn_A, txn_B], modified = [], removed = [],
            has_more = True, next_cursor = Some ''c1''\<rparr>"

definition page2 :: "(txn, string) data" where
  "page2 = \<lparr>added = [], modified = [txn_A], removed = [],
            has_more = True, next_cursor = Some ''c2''\<rparr>"

definition page3 :: "(txn, string) data" where
  "page3 = \<lparr>added = [], modified = [], removed = [''B''],
            has_more = False, next_cursor = Some ''c3''\<rparr>"

definition feed :: "(string, txn, string) sync_client" where
  "feed k rq =
     (case cursor rq of
        None \<Rightarrow> Inr page1
      | Some c \<Rightarrow>
          if c = ''c1'' then Inr page2
          else if c = ''c2'' then Inr page3
          else Inl ''INVALID_CURSOR'')"

definition outage :: "(string, txn, string) sync_client" where
  "outage k rq = (if k = 0 then Inr page1 else Inl ''INTERNAL_SERVER_ERROR'')"

section \<open>Polling for the asset report\<close>

text \<open>
  \<open>getAssetReportWithRetries\<close> returns a promise. What its caller can observe of it is
  whether it is fulfilled, rejected, or never settled. A rejection reason is any value;
  the two kinds that occur here are an error of the remote call and a message string.
\<close>

datatype 'e reason = AttemptError 'e | Message string

datatype ('e, 'v) promise = Resolved 'v | Rejected "'e reason" | Pending

text \<open>
  What one poll does to the world, in order: \<open>Attempt r\<close> is the \<open>assetReportGet\<close> call
  made by the invocation whose \<open>retriesLeft\<close> is \<open>r\<close>, \<open>SetTimeout ms\<close> a timer of \<open>ms\<close>
  milliseconds that has run out, \<open>Reject x\<close> a call of \<open>reject\<close>.
\<close>

datatype 'e event = Attempt int | SetTimeout nat | Reject "'e reason"

fun budgets :: "'e event list \<Rightarrow> int list" where
  "budgets [] = []"
| "budgets (Attempt r # tr) = r # budgets tr"
| "budgets (_ # tr) = budgets tr"

fun delays :: "'e event list \<Rightarrow> nat list" where
  "delays [] = []"
| "delays (SetTimeout ms # tr) = ms # delays tr"
| "delays (_ # tr) = delays tr"

fun rejections :: "'e event list \<Rightarrow> 'e reason list" where
  "rejections [] = []"
| "rejections (Reject x # tr) = x # rejections tr"
| "rejections (_ # tr) = rejections tr"

definition calls_made :: "'e event list \<Rightarrow> nat" where
  "calls_made tr = length (budgets tr)"

definition exhausted :: string where
  "exhausted = ''Ran out of retries while polling for asset report''"

text \<open>
  \<open>inner.then(resolve)\<close>: the outer promise is fulfilled when the inner one is. No
  rejection handler is given, so a rejected inner promise leaves the outer one unsettled.
\<close>

fun then_resolve :: "('e, 'v) promise \<Rightarrow> ('e, 'v) promise" where
  "then_resolve (Resolved v) = Resolved v"
| "then_resolve (Rejected x) = Pending"
| "then_resolve Pending = Pending"

text \<open>
  \<open>plaidClient k token\<close> is the outcome of the \<open>assetReportGet\<close> call made after \<open>k\<close>
  earlier ones. \<open>retriesLeft\<close> is a JavaScript number, compared with \<open>=== 1\<close> only: from a
  start below one the recursion never meets its exit, so the function is partial.

  The counter is an integer here and \<open>retriesLeft - 1\<close> is exact. The source's number is a
  double, whose subtraction is exact for whole numbers up to \<open>2 ^ 53\<close> and rounds above
  that: the model is the source for whole budgets up to \<open>2 ^ 53\<close>, and statements about
  the values of the counter are made for those.
\<close>

partial_function (option) getAssetReportWithRetries ::
  "(nat \<Rightarrow> string \<Rightarrow> 'e + 'v) \<Rightarrow> string \<Rightarrow> nat \<Rightarrow> int \<Rightarrow> 'e event list
    \<Rightarrow> (('e, 'v) promise \<times> 'e event list) option" where
  "getAssetReportWithRetries plaidClient asset_report_token ms retriesLeft tr =
     (case plaidClient (calls_made tr) asset_report_token of
        Inr report \<Rightarrow> Some (Resolved report, tr @ [Attempt retriesLeft])
      | Inl err \<Rightarrow>
          if retriesLeft = 1
          then Some (Rejected (Message exhausted),
                     tr @ [Attempt retriesLeft, SetTimeout ms, Reject (Message exhausted)])
          else Option.bind
                 (getAssetReportWithRetries plaidClient asset_report_token ms (retriesLeft - 1)
                    (tr @ [Attempt retriesLeft, SetTimeout ms]))
                 (\<lambda>(inner, tr'). Some (then_resolve inner, tr')))"

text \<open>
  The events of \<open>j\<close> failed attempts in a row, the first made with \<open>retriesLeft = r\<close>: each
  is followed by its timer, and the next invocation has one retry less.
\<close>

fun failed_rounds :: "int \<Rightarrow> nat \<Rightarrow> nat \<Rightarrow> 'e event list" where
  "failed_rounds r ms 0 = []"
| "failed_rounds r ms (Suc j) = Attempt r # SetTimeout ms # failed_rounds (r - 1) ms j"

text \<open>
  Two remote services to run the poll on: one whose report is never ready, and one whose
  report is ready from the call after \<open>n\<close> earlier ones on.
\<close>

definition never_ready :: "nat \<Rightarrow> string \<Rightarrow> string + nat" where
  "never_ready k asset_report_token = Inl ''PRODUCT_NOT_READY''"

definition ready_after :: "nat \<Rightarrow> nat \<Rightarrow> nat \<Rightarrow> string \<Rightarrow> string + nat" where
  "ready_after n report k asset_report_token =
     (if k < n then Inl ''PRODUCT_NOT_READY'' else Inr report)"

section \<open>Properties of the sync loop\<close>

lemma length_cursors_sent: "length (cursors_sent c ps) = length ps"
  by (induction ps arbitrary: c) auto

lemma cursors_sent_snoc:
  "cursors_sent c (ps @ [p]) = cursors_sent c ps @ [last (c # map next_cursor ps)]"
  by (induction ps arbitrary: c) auto

lemma merge_pages_Nil: "merge_pages s [] = s"
  by (simp add: merge_pages_def)

lemma sync_page_Inr:
  assumes "client (length log) \<lparr>access_token = token, cursor = cur s\<rparr> = Inr p"
  shows "sync_page client token s log
         = (Inr (merge_pages s [p]), log @ [\<lparr>access_token = token, cursor = cur s\<rparr>])"
  using assms by (simp add: sync_page_def merge_pages_def)

lemma sync_page_Inl:
  assumes "client (length log) \<lparr>access_token = token, cursor = cur s\<rparr> = Inl e"
  shows "sync_page client token s log
         = (Inl e, log @ [\<lparr>access_token = token, cursor = cur s\<rparr>])"
  using assms by (simp add: sync_page_def)

lemma merge_pages_Cons: "merge_pages (merge_pages s [p]) ps = merge_pages s (p # ps)"
  by (simp add: merge_pages_def)

lemma sync_loop_pages:
  assumes "\<forall>k<length ps. client (length log + k)
               \<lparr>access_token = token, cursor = cursors_sent (cur s) ps ! k\<rparr> = Inr (ps ! k)"
    and "\<forall>p\<in>set ps. has_more p"
    and "hasMore s"
  shows "sync_loop client token s log
         = sync_loop client token (merge_pages s ps) (log @ requests_sent token (cur s) ps)"
  using assms
proof (induction ps arbitrary: s log)
  case Nil
  show ?case by (simp add: merge_pages_Nil requests_sent_def)
next
  case (Cons p ps)
  let ?rq = "\<lparr>access_token = token, cursor = cur s\<rparr>"
  let ?s1 = "merge_pages s [p]"
  from Cons.prems(1) have "client (length log + 0) \<lparr>access_token = token,
      cursor = cursors_sent (cur s) (p # ps) ! 0\<rparr> = Inr ((p # ps) ! 0)" by blast
  then have c0: "client (length log) ?rq = Inr p" by simp
  have step: "sync_loop client token s log = sync_loop client token ?s1 (log @ [?rq])"
    by (subst sync_loop.simps) (simp add: Cons.prems(3) sync_page_Inr[of client log token s p] c0)
  have cur1: "cur ?s1 = next_cursor p" by (simp add: merge_pages_def)
  have a: "\<forall>k<length ps. client (length (log @ [?rq]) + k)
               \<lparr>access_token = token, cursor = cursors_sent (cur ?s1) ps ! k\<rparr> = Inr (ps ! k)"
  proof (intro allI impI)
    fix k assume "k < length ps"
    then have "Suc k < length (p # ps)" by simp
    with Cons.prems(1) have "client (length log + Suc k) \<lparr>access_token = token,
      cursor = cursors_sent (cur s) (p # ps) ! Suc k\<rparr> = Inr ((p # ps) ! Suc k)" by blast
    then show "client (length (log @ [?rq]) + k)
               \<lparr>access_token = token, cursor = cursors_sent (cur ?s1) ps ! k\<rparr> = Inr (ps ! k)"
      by (simp add: cur1)
  qed
  have b: "\<forall>p\<in>set ps. has_more p" using Cons.prems(2) by simp
  have c: "hasMore ?s1" using Cons.prems(2) by (simp add: merge_pages_def)
  have "sync_loop client token ?s1 (log @ [?rq])
        = sync_loop client token (merge_pages ?s1 ps) ((log @ [?rq]) @ requests_sent token (cur ?s1) ps)"
    by (rule Cons.IH[OF a b c])
  with step show ?case
    by (simp add: merge_pages_Cons cur1 requests_sent_def)
qed

lemma sync_loop_drain:
  fixes client :: "('e, 't, 'r) sync_client"
  assumes "ps \<noteq> []"
    and "\<forall>k<length ps. client k
           \<lparr>access_token = token, cursor = cursors_sent None ps ! k\<rparr> = Inr (ps ! k)"
    and "\<forall>k<length ps - 1. has_more (ps ! k)"
    and "\<not> has_more (last ps)"
  shows "sync_loop client token init [] = Some (Inr (merge_pages init ps), requests_sent token None ps)"
proof -
  from assms(1) obtain qs p where ps: "ps = qs @ [p]" by (metis rev_exhaust)
  have cur0: "cur (init :: ('t, 'r) locals) = None" by (simp add: init_def)
  have a: "\<forall>k<length qs. client (length ([] :: request list) + k)
             \<lparr>access_token = token, cursor = cursors_sent (cur (init :: ('t, 'r) locals)) qs ! k\<rparr> = Inr (qs ! k)"
  proof (intro allI impI)
    fix k assume k: "k < length qs"
    then have "k < length ps" by (simp add: ps)
    with assms(2) have "client k \<lparr>access_token = token, cursor = cursors_sent None ps ! k\<rparr>
                        = Inr (ps ! k)" by blast
    with k show "client (length ([] :: request list) + k)
             \<lparr>access_token = token, cursor = cursors_sent (cur (init :: ('t, 'r) locals)) qs ! k\<rparr> = Inr (qs ! k)"
      by (simp add: ps cursors_sent_snoc nth_append length_cursors_sent cur0)
  qed
  have b: "\<forall>q\<in>set qs. has_more q"
  proof
    fix q assume "q \<in> set qs"
    then obtain k where k: "k < length qs" "qs ! k = q" by (auto simp: in_set_conv_nth)
    with assms(3) have "has_more (ps ! k)" by (simp add: ps)
    with k show "has_more q" by (simp add: ps nth_append)
  qed
  have c: "hasMore (init :: ('t, 'r) locals)" by (simp add: init_def)
  let ?s = "merge_pages (init :: ('t, 'r) locals) qs"
  let ?log = "requests_sent token None qs"
  have one: "sync_loop client token init [] = sync_loop client token ?s ?log"
    using sync_loop_pages[OF a b c] by (simp add: cur0)
  have more: "hasMore ?s" using b c by (cases qs rule: rev_cases) (auto simp: merge_pages_def)
  have "client (length ps - 1) \<lparr>access_token = token, cursor = cursors_sent None ps ! (length ps - 1)\<rparr>
          = Inr (ps ! (length ps - 1))"
    using assms(1,2) by simp
  then have lastcall: "client (length ?log) \<lparr>access_token = token, cursor = cur ?s\<rparr> = Inr p"
    by (simp add: ps cursors_sent_snoc nth_append length_cursors_sent requests_sent_def
        merge_pages_def cur0)
  have mp: "merge_pages ?s [p] = merge_pages init ps"
    by (simp add: ps merge_pages_def)
  have stop: "\<not> hasMore (merge_pages init ps)"
    using assms(4) by (simp add: ps merge_pages_def)
  have rq: "?log @ [\<lparr>access_token = token, cursor = cur ?s\<rparr>] = requests_sent token None ps"
    by (simp add: ps requests_sent_def cursors_sent_snoc merge_pages_def cur0)
  have "sync_loop client token ?s ?log
        = sync_loop client token (merge_pages init ps) (requests_sent token None ps)"
    by (subst sync_loop.simps)
       (simp add: more sync_page_Inr[of client ?log token ?s p] lastcall mp rq)
  also have "\<dots> = Some (Inr (merge_pages init ps), requests_sent token None ps)"
    by (subst sync_loop.simps) (simp add: stop)
  finally show ?thesis using one by simp
qed

lemma sync_loop_abort:
  fixes client :: "('e, 't, 'r) sync_client"
  assumes "\<forall>k<length ps. client k
           \<lparr>access_token = token, cursor = cursors_sent None ps ! k\<rparr> = Inr (ps ! k)"
    and "\<forall>p\<in>set ps. has_more p"
    and "client (length ps) \<lparr>access_token = token, cursor = last (None # map next_cursor ps)\<rparr> = Inl e"
  shows "sync_loop client token (init :: ('t, 'r) locals) []
         = Some (Inl e, requests_sent token None ps
                        @ [\<lparr>access_token = token, cursor = last (None # map next_cursor ps)\<rparr>])"
proof -
  have cur0: "cur (init :: ('t, 'r) locals) = None" by (simp add: init_def)
  have c: "hasMore (init :: ('t, 'r) locals)" by (simp add: init_def)
  let ?s = "merge_pages (init :: ('t, 'r) locals) ps"
  let ?log = "requests_sent token None ps"
  have a: "\<forall>k<length ps. client (length ([] :: request list) + k)
             \<lparr>access_token = token, cursor = cursors_sent (cur (init :: ('t, 'r) locals)) ps ! k\<rparr> = Inr (ps ! k)"
    using assms(1) by (simp add: cur0)
  have one: "sync_loop client token (init :: ('t, 'r) locals) [] = sync_loop client token ?s ?log"
    using sync_loop_pages[OF a assms(2) c] by (simp add: cur0)
  have more: "hasMore ?s" using assms(2) c by (cases ps rule: rev_cases) (auto simp: merge_pages_def)
  have lastcall: "client (length ?log) \<lparr>access_token = token, cursor = cur ?s\<rparr> = Inl e"
    using assms(3) by (simp add: requests_sent_def length_cursors_sent merge_pages_def cur0)
  have cs: "cur ?s = last (None # map next_cursor ps)" by (simp add: merge_pages_def cur0)
  have "sync_loop client token ?s ?log
        = Some (Inl e, ?log @ [\<lparr>access_token = token, cursor = cur ?s\<rparr>])"
    by (subst sync_loop.simps)
       (simp add: more sync_page_Inl[of client ?log token ?s e] lastcall)
  with one show ?thesis by (simp only: cs)
qed

lemma cursor_inv_init: "cursor_inv client init []"
  by (simp add: cursor_inv_def chained_def init_def)

lemma chained_snoc:
  assumes "cursor_inv client s log"
  shows "chained client (log @ [\<lparr>access_token = token, cursor = cur s\<rparr>])"
proof (cases "log = []")
  case True
  with assms show ?thesis by (simp add: cursor_inv_def chained_def)
next
  case False
  let ?rq = "\<lparr>access_token = token, cursor = cur s\<rparr>"
  from assms have ch: "chained client log" by (simp add: cursor_inv_def)
  from assms False have lst: "case client (length log - 1) (last log) of
             Inl e \<Rightarrow> False | Inr d \<Rightarrow> cur s = next_cursor d"
    by (simp add: cursor_inv_def)
  have first: "cursor ((log @ [?rq]) ! 0) = None"
    using ch False by (simp add: chained_def nth_append)
  have step: "case client k ((log @ [?rq]) ! k) of
          Inl e \<Rightarrow> False
        | Inr d \<Rightarrow> cursor ((log @ [?rq]) ! Suc k) = next_cursor d" if "k < length log" for k
  proof (cases "Suc k < length log")
    case True
    with ch have "case client k (log ! k) of
          Inl e \<Rightarrow> False | Inr d \<Rightarrow> cursor (log ! Suc k) = next_cursor d"
      by (simp add: chained_def)
    with True show ?thesis by (auto simp: nth_append split: sum.splits)
  next
    case F: False
    with that have k: "Suc k = length log" by simp
    then have a: "(log @ [?rq]) ! Suc k = ?rq" by (simp add: nth_append)
    from k False have b: "(log @ [?rq]) ! k = last log"
      by (metis that last_conv_nth diff_Suc_1 nth_append)
    from k have c: "length log - 1 = k" by simp
    from lst show ?thesis unfolding a b c by (auto split: sum.splits)
  qed
  from first step show ?thesis by (simp add: chained_def)
qed

lemma cursor_inv_step:
  assumes "cursor_inv client s log"
    and "sync_page client token s log = (r, log')"
  shows "log' = log @ [\<lparr>access_token = token, cursor = cur s\<rparr>] \<and> chained client log'
         \<and> (\<forall>s'. r = Inr s' \<longrightarrow> cursor_inv client s' log')"
proof -
  let ?rq = "\<lparr>access_token = token, cursor = cur s\<rparr>"
  from assms(2) have l: "log' = log @ [?rq]"
    by (auto simp: sync_page_def Let_def split: sum.splits)
  have ch: "chained client log'" unfolding l by (rule chained_snoc[OF assms(1)])
  have "cursor_inv client s' log'" if "r = Inr s'" for s'
    using assms(2) that ch by (auto simp: sync_page_def Let_def cursor_inv_def l split: sum.splits)
  with l ch show ?thesis by blast
qed

lemma cursor_inv_loop_aux:
  assumes "sync_loop client token s log = Some y"
    and "cursor_inv client s log"
  shows "chained client (snd y) \<and> (\<forall>s'. fst y = Inr s' \<longrightarrow> cursor_inv client s' (snd y))"
  using assms
proof (induction rule: sync_loop.raw_induct[rotated 1, consumes 1])
  case (1 f client token s log y)
  show ?case
  proof (cases "hasMore s")
    case False
    with "1.hyps" "1.prems" show ?thesis by (auto simp: cursor_inv_def)
  next
    case True
    obtain r1 log1 where sp: "sync_page client token s log = (r1, log1)"
      by (cases "sync_page client token s log")
    from cursor_inv_step[OF "1.prems" sp]
    have st: "chained client log1" "\<forall>s'. r1 = Inr s' \<longrightarrow> cursor_inv client s' log1" by blast+
    show ?thesis
    proof (cases r1)
      case (Inl e)
      with "1.hyps" True sp st show ?thesis by auto
    next
      case (Inr s1)
      with "1.hyps" True sp have "f client token s1 log1 = Some y" by simp
      moreover from st Inr have "cursor_inv client s1 log1" by simp
      ultimately show ?thesis by (rule "1.IH")
    qed
  qed
qed

lemma cursor_inv_loop:
  assumes "sync_loop client token s log = Some (r, log')"
    and "cursor_inv client s log"
  shows "chained client log' \<and> (\<forall>s'. r = Inr s' \<longrightarrow> cursor_inv client s' log')"
  using cursor_inv_loop_aux[OF assms] by simp

lemma insert_cmp_date: "insert_cmp compareTxnsByDateAscending x ys = insort_key date x ys"
  by (induction ys) (auto simp: compareTxnsByDateAscending_def)

lemma sort_cmp_date: "sort_cmp compareTxnsByDateAscending xs = sort_key date xs"
  by (induction xs) (simp_all add: sort_cmp_def insert_cmp_date)

lemma recently_added_eq:
  assumes "added_ref < length h"
  shows "recently_added added_ref h
         = (Suc (length h),
            h @ [sort_key date (h ! added_ref),
                 drop (length (h ! added_ref) - 8) (sort_key date (h ! added_ref))])"
  using assms
  by (simp add: recently_added_def spread_def sort_in_place_def slice_last_def sort_cmp_date
      nth_append)

lemma merge_pages_init:
  assumes "ps \<noteq> []"
  shows "merge_pages init ps
         = \<lparr>cur = next_cursor (last ps), acc_added = concat (map added ps),
            acc_modified = concat (map modified ps), acc_removed = concat (map removed ps),
            hasMore = has_more (last ps)\<rparr>"
  using assms by (simp add: merge_pages_def init_def last_map)

subsection \<open>The example feeds\<close>

lemma feed_pages:
  "\<forall>k<length [page1, page2, page3].
     feed k \<lparr>access_token = token, cursor = cursors_sent None [page1, page2, page3] ! k\<rparr>
       = Inr ([page1, page2, page3] ! k)"
  by (simp add: feed_def page1_def page2_def less_Suc_eq)

lemma feed_has_more:
  "\<forall>k<length [page1, page2, page3] - 1. has_more ([page1, page2, page3] ! k)"
  by (simp add: page1_def page2_def less_Suc_eq)

lemma feed_last: "\<not> has_more (last [page1, page2, page3])"
  by (simp add: page3_def)

lemma feed_run:
  "sync_loop feed token init []
     = Some (Inr \<lparr>cur = Some ''c3'', acc_added = [txn_A, txn_B], acc_modified = [txn_A],
                  acc_removed = [''B''], hasMore = False\<rparr>,
             [\<lparr>access_token = token, cursor = None\<rparr>,
              \<lparr>access_token = token, cursor = Some ''c1''\<rparr>,
              \<lparr>access_token = token, cursor = Some ''c2''\<rparr>])"
proof -
  have "sync_loop feed token init []
        = Some (Inr (merge_pages init [page1, page2, page3]),
                requests_sent token None [page1, page2, page3])"
  proof (rule sync_loop_drain[of "[page1, page2, page3]" feed token])
    show "[page1, page2, page3] \<noteq> []" by simp
  qed (rule feed_pages feed_has_more feed_last)+
  then show ?thesis
    by (simp add: merge_pages_init requests_sent_def page1_def page2_def page3_def)
qed

lemma feed_first_page:
  "sync_page feed token init []
     = (Inr (merge_pages init [page1]), [\<lparr>access_token = token, cursor = None\<rparr>])"
  by (simp add: sync_page_def feed_def init_def merge_pages_def)

lemma outage_pages:
  "\<forall>k<length [page1]. outage k \<lparr>access_token = token, cursor = cursors_sent None [page1] ! k\<rparr>
     = Inr ([page1] ! k)"
  by (simp add: outage_def)

lemma outage_fails:
  "outage (length [page1]) \<lparr>access_token = token, cursor = last (None # map next_cursor [page1])\<rparr>
     = Inl ''INTERNAL_SERVER_ERROR''"
  by (simp add: outage_def)

subsection \<open>Draining, the cursor chain, failure and the response\<close>

text \<open>
  C1. Let the provider answer the requests of a drain with the pages \<open>ps\<close>, one or more,
  of which all but the last report \<open>has_more\<close>. Then the loop returns, it has issued
  exactly one request per page, and its accumulators \<open>added\<close>, \<open>modified\<close> and
  \<open>removed\<close> are the concatenations of the pages' lists, in page order and unchanged
  within a page: nothing is reordered and nothing is dropped as a duplicate.
\<close>

theorem sync_drains_all_pages:
  fixes client :: "('e, 't, 'r) sync_client"
  assumes "ps \<noteq> []"
    and "\<forall>k<length ps. client k
           \<lparr>access_token = token, cursor = cursors_sent None ps ! k\<rparr> = Inr (ps ! k)"
    and "\<forall>k<length ps - 1. has_more (ps ! k)"
    and "\<not> has_more (last ps)"
  shows "sync_loop client token init []
         = Some (Inr \<lparr>cur = next_cursor (last ps),
                      acc_added = concat (map added ps),
                      acc_modified = concat (map modified ps),
                      acc_removed = concat (map removed ps),
                      hasMore = False\<rparr>,
                 map (\<lambda>c. \<lparr>access_token = token, cursor = c\<rparr>) (cursors_sent None ps))
       \<and> length (cursors_sent None ps) = length ps"
proof -
  from sync_loop_drain[of ps client token] assms
  have "sync_loop client token init []
        = Some (Inr (merge_pages init ps), requests_sent token None ps)"
    by blast
  with assms(1,4) show ?thesis
    by (simp add: merge_pages_init requests_sent_def length_cursors_sent)
qed

text \<open>
  The three-page feed: \<open>A\<close> and \<open>B\<close> added, then \<open>A\<close> modified, then \<open>B\<close> removed,
  with the cursors \<open>null\<close>, \<open>c1\<close>, \<open>c2\<close> sent and \<open>c3\<close> left in the variable.
\<close>

theorem sync_drains_all_pages_witness:
  "[page1, page2, page3] \<noteq> []
   \<and> feed 0 \<lparr>access_token = ''token'', cursor = None\<rparr> = Inr page1
   \<and> feed 1 \<lparr>access_token = ''token'', cursor = Some ''c1''\<rparr> = Inr page2
   \<and> feed 2 \<lparr>access_token = ''token'', cursor = Some ''c2''\<rparr> = Inr page3
   \<and> has_more page1 \<and> has_more page2 \<and> \<not> has_more page3
   \<and> sync_loop feed ''token'' init []
       = Some (Inr \<lparr>cur = Some ''c3'', acc_added = [txn_A, txn_B], acc_modified = [txn_A],
                    acc_removed = [''B''], hasMore = False\<rparr>,
               [\<lparr>access_token = ''token'', cursor = None\<rparr>,
                \<lparr>access_token = ''token'', cursor = Some ''c1''\<rparr>,
                \<lparr>access_token = ''token'', cursor = Some ''c2''\<rparr>])"
proof -
  have ne: "[page1, page2, page3] \<noteq> []" by simp
  from sync_drains_all_pages[of "[page1, page2, page3]" feed "''token''"]
    ne feed_pages[of "''token''"] feed_has_more feed_last
  have "sync_loop feed ''token'' init []
         = Some (Inr \<lparr>cur = next_cursor (last [page1, page2, page3]),
                      acc_added = concat (map added [page1, page2, page3]),
                      acc_modified = concat (map modified [page1, page2, page3]),
                      acc_removed = concat (map removed [page1, page2, page3]),
                      hasMore = False\<rparr>,
                 map (\<lambda>c. \<lparr>access_token = ''token'', cursor = c\<rparr>)
                   (cursors_sent None [page1, page2, page3]))"
    by blast
  then have "sync_loop feed ''token'' init []
       = Some (Inr \<lparr>cur = Some ''c3'', acc_added = [txn_A, txn_B], acc_modified = [txn_A],
                    acc_removed = [''B''], hasMore = False\<rparr>,
               [\<lparr>access_token = ''token'', cursor = None\<rparr>,
                \<lparr>access_token = ''token'', cursor = Some ''c1''\<rparr>,
                \<lparr>access_token = ''token'', cursor = Some ''c2''\<rparr>])"
    by (simp add: page1_def page2_def page3_def)
  then show ?thesis
    by (simp add: feed_def page1_def page2_def page3_def)
qed

text \<open>
  C2. The request log of the loop is chained: the first request carries the \<open>null\<close>
  cursor, and every later request carries exactly the \<open>next_cursor\<close> that the call
  before it returned. This is an invariant of the loop: it holds before the first
  iteration, each run of the loop body sends the current value of the cursor variable and,
  when the call succeeds, replaces the variable by the page's \<open>next_cursor\<close>, and so it
  holds for the log of every run that returns or throws.
\<close>

theorem cursor_chain_invariant:
  fixes client :: "('e, 't, 'r) sync_client"
  shows "cursor_inv client (init :: ('t, 'r) locals) []
       \<and> (cursor_inv client s log \<and> sync_page client token s log = (r, log') \<longrightarrow>
            log' = log @ [\<lparr>access_token = token, cursor = cur s\<rparr>] \<and> chained client log'
            \<and> (\<forall>s'. r = Inr s' \<longrightarrow> cursor_inv client s' log'))
       \<and> (sync_loop client token0 (init :: ('t, 'r) locals) [] = Some (r0, log0) \<longrightarrow>
            chained client log0 \<and> (\<forall>s'. r0 = Inr s' \<longrightarrow> cursor_inv client s' log0))"
  using cursor_inv_init[of client] cursor_inv_step[of client s log token r log']
    cursor_inv_loop[of client token0 init "[]" r0 log0]
  by blast

text \<open>
  On the three-page feed: the first iteration, and the whole run.
\<close>

theorem cursor_chain_invariant_witness:
  "cursor_inv feed (init :: (txn, string) locals) []
   \<and> sync_page feed ''token'' init []
       = (Inr (merge_pages init [page1]), [\<lparr>access_token = ''token'', cursor = None\<rparr>])
   \<and> chained feed [\<lparr>access_token = ''token'', cursor = None\<rparr>]
   \<and> cursor_inv feed (merge_pages init [page1]) [\<lparr>access_token = ''token'', cursor = None\<rparr>]
   \<and> sync_loop feed ''token'' init []
       = Some (Inr \<lparr>cur = Some ''c3'', acc_added = [txn_A, txn_B], acc_modified = [txn_A],
                    acc_removed = [''B''], hasMore = False\<rparr>,
               [\<lparr>access_token = ''token'', cursor = None\<rparr>,
                \<lparr>access_token = ''token'', cursor = Some ''c1''\<rparr>,
                \<lparr>access_token = ''token'', cursor = Some ''c2''\<rparr>])
   \<and> chained feed [\<lparr>access_token = ''token'', cursor = None\<rparr>,
                    \<lparr>access_token = ''token'', cursor = Some ''c1''\<rparr>,
                    \<lparr>access_token = ''token'', cursor = Some ''c2''\<rparr>]"
  using cursor_chain_invariant[of feed init "[]" "''token''"
      "Inr (merge_pages init [page1])" "[\<lparr>access_token = ''token'', cursor = None\<rparr>]" "''token''"
      "Inr \<lparr>cur = Some ''c3'', acc_added = [txn_A, txn_B], acc_modified = [txn_A],
                    acc_removed = [''B''], hasMore = False\<rparr>"
      "[\<lparr>access_token = ''token'', cursor = None\<rparr>,
                \<lparr>access_token = ''token'', cursor = Some ''c1''\<rparr>,
                \<lparr>access_token = ''token'', cursor = Some ''c2''\<rparr>]"]
    feed_first_page[of "''token''"] feed_run[of "''token''"]
  by blast

text \<open>
  C3. When a call of the drain fails, after any number of pages that reported
  \<open>has_more\<close>, the loop ends with that error, the failed request is the last one issued,
  and the route hands the error on instead of a body: nothing of what was accumulated
  from the earlier pages reaches the caller.
\<close>

theorem sync_aborts_on_failed_fetch:
  fixes client :: "('e, txn, 'r) sync_client"
  assumes "\<forall>k<length ps. client k
           \<lparr>access_token = token, cursor = cursors_sent None ps ! k\<rparr> = Inr (ps ! k)"
    and "\<forall>p\<in>set ps. has_more p"
    and "client (length ps) \<lparr>access_token = token, cursor = last (None # map next_cursor ps)\<rparr>
         = Inl e"
  shows "sync_loop client token init []
         = Some (Inl e, requests_sent token None ps
                        @ [\<lparr>access_token = token, cursor = last (None # map next_cursor ps)\<rparr>])
       \<and> transactions_route (Some token) client
         = Some (Inl (Thrown e), requests_sent token None ps
                        @ [\<lparr>access_token = token, cursor = last (None # map next_cursor ps)\<rparr>])
       \<and> length (requests_sent token None ps
                  @ [\<lparr>access_token = token, cursor = last (None # map next_cursor ps)\<rparr>])
         = Suc (length ps)"
proof -
  from sync_loop_abort[of ps client token e] assms
  have run: "sync_loop client token (init :: (txn, 'r) locals) []
         = Some (Inl e, requests_sent token None ps
                        @ [\<lparr>access_token = token, cursor = last (None # map next_cursor ps)\<rparr>])"
    by blast
  then show ?thesis
    by (simp add: transactions_route_def requests_sent_def length_cursors_sent)
qed

text \<open>
  A provider that serves the first page and then fails: two requests, no body.
\<close>

theorem sync_aborts_on_failed_fetch_witness:
  "outage 0 \<lparr>access_token = ''token'', cursor = None\<rparr> = Inr page1
   \<and> has_more page1
   \<and> outage 1 \<lparr>access_token = ''token'', cursor = Some ''c1''\<rparr> = Inl ''INTERNAL_SERVER_ERROR''
   \<and> transactions_route (Some ''token'') outage
       = Some (Inl (Thrown ''INTERNAL_SERVER_ERROR''),
               [\<lparr>access_token = ''token'', cursor = None\<rparr>,
                \<lparr>access_token = ''token'', cursor = Some ''c1''\<rparr>])"
proof -
  have hm: "\<forall>p\<in>set [page1]. has_more p" by (simp add: page1_def)
  from sync_aborts_on_failed_fetch[of "[page1]" outage "''token''" "''INTERNAL_SERVER_ERROR''"]
    outage_pages[of "''token''"] hm outage_fails[of "''token''"]
  have "transactions_route (Some ''token'') outage
         = Some (Inl (Thrown ''INTERNAL_SERVER_ERROR''), requests_sent ''token'' None [page1]
                   @ [\<lparr>access_token = ''token'', cursor = last (None # map next_cursor [page1])\<rparr>])"
    by blast
  then have "transactions_route (Some ''token'') outage
       = Some (Inl (Thrown ''INTERNAL_SERVER_ERROR''),
               [\<lparr>access_token = ''token'', cursor = None\<rparr>,
                \<lparr>access_token = ''token'', cursor = Some ''c1''\<rparr>])"
    by (simp add: requests_sent_def page1_def)
  then show ?thesis
    by (simp add: outage_def page1_def)
qed

text \<open>
  C10. After the drain the route answers with the accumulated \<open>added\<close> list sorted by date,
  ascending and stable, cut to its last eight elements: at most eight transactions, all
  of them from \<open>added\<close>; \<open>modified\<close> and \<open>removed\<close> do not enter the body. The sort
  works on a fresh copy: every array that existed before, the \<open>added\<close> array among them,
  is left as it was.
\<close>

theorem latest_transactions_window:
  fixes client :: "('e, txn, 'r) sync_client"
  assumes "added_ref < length h"
    and "sync_loop client token init [] = Some (Inr s, log)"
  shows "recently_added added_ref h
           = (Suc (length h),
              h @ [sort_key date (h ! added_ref),
                   drop (length (h ! added_ref) - 8) (sort_key date (h ! added_ref))])
       \<and> take (length h) (snd (recently_added added_ref h)) = h
       \<and> transactions_route (Some token) client
           = Some (Inr \<lparr>latest_transactions
                          = drop (length (acc_added s) - 8) (sort_key date (acc_added s))\<rparr>, log)
       \<and> length (drop (length (acc_added s) - 8) (sort_key date (acc_added s))) \<le> 8
       \<and> sorted (map date (drop (length (acc_added s) - 8) (sort_key date (acc_added s))))
       \<and> mset (drop (length (acc_added s) - 8) (sort_key date (acc_added s))) \<subseteq># mset (acc_added s)"
proof -
  note ra = recently_added_eq[OF assms(1)]
  have tk: "take (length h) (snd (recently_added added_ref h)) = h" by (simp add: ra)
  have rt: "transactions_route (Some token) client
           = Some (Inr \<lparr>latest_transactions
                          = drop (length (acc_added s) - 8) (sort_key date (acc_added s))\<rparr>, log)"
    using recently_added_eq[of 0 "[acc_added s]"]
    by (simp add: transactions_route_def assms(2) nth_append)
  have srt: "sorted (map date (drop (length (acc_added s) - 8) (sort_key date (acc_added s))))"
    by (simp add: drop_map[symmetric] sorted_wrt_drop)
  have ms: "mset (drop (length (acc_added s) - 8) (sort_key date (acc_added s))) \<subseteq># mset (acc_added s)"
    by (metis mset_sort set_mset_mset mset_subset_eq_add_right append_take_drop_id mset_append)
  from ra tk rt srt ms show ?thesis by simp
qed

text \<open>
  On the three-page feed \<open>B\<close> is dated before \<open>A\<close>, so the body lists \<open>B\<close> first, and the
  array of \<open>added\<close> at address \<open>0\<close> still reads \<open>A\<close>, \<open>B\<close>.
\<close>

theorem latest_transactions_window_witness:
  "0 < length [ [txn_A, txn_B] ]
   \<and> sync_loop feed ''token'' init []
       = Some (Inr \<lparr>cur = Some ''c3'', acc_added = [txn_A, txn_B], acc_modified = [txn_A],
                    acc_removed = [''B''], hasMore = False\<rparr>,
               [\<lparr>access_token = ''token'', cursor = None\<rparr>,
                \<lparr>access_token = ''token'', cursor = Some ''c1''\<rparr>,
                \<lparr>access_token = ''token'', cursor = Some ''c2''\<rparr>])
   \<and> recently_added 0 [ [txn_A, txn_B] ] = (2, [ [txn_A, txn_B], [txn_B, txn_A], [txn_B, txn_A] ])
   \<and> transactions_route (Some ''token'') feed
       = Some (Inr \<lparr>latest_transactions = [txn_B, txn_A]\<rparr>,
               [\<lparr>access_token = ''token'', cursor = None\<rparr>,
                \<lparr>access_token = ''token'', cursor = Some ''c1''\<rparr>,
                \<lparr>access_token = ''token'', cursor = Some ''c2''\<rparr>])"
proof -
  have h1: "0 < length [ [txn_A, txn_B] ]" by simp
  have lt: "\<not> date txn_A \<le> date txn_B"
    by (simp add: txn_A_def txn_B_def)
  from latest_transactions_window[of 0 "[ [txn_A, txn_B] ]" feed "''token''", OF h1 feed_run]
    h1 feed_run[of "''token''"]
  show ?thesis by (simp add: lt numeral_2_eq_2)
qed

section \<open>Properties of the poll\<close>

lemma budgets_append: "budgets (a @ b) = budgets a @ budgets b"
  by (induction a rule: budgets.induct) auto

lemma calls_made_append: "calls_made (a @ b) = calls_made a + calls_made b"
  by (simp add: calls_made_def budgets_append)

lemma calls_made_simps: "calls_made [] = 0" "calls_made (Attempt r # tr) = Suc (calls_made tr)"
  "calls_made (SetTimeout ms # tr) = calls_made tr" "calls_made (Reject x # tr) = calls_made tr"
  by (simp_all add: calls_made_def)

lemma poll_success:
  assumes "\<forall>k<j. isl (plaidClient (calls_made tr + k) tok)"
    and "plaidClient (calls_made tr + j) tok = Inr v"
    and "int j < r"
  shows "getAssetReportWithRetries plaidClient tok ms r tr
         = Some (Resolved v, tr @ failed_rounds r ms j @ [Attempt (r - int j)])"
  using assms
proof (induction j arbitrary: r tr)
  case 0
  then show ?case by (subst getAssetReportWithRetries.simps) simp
next
  case (Suc j)
  from Suc.prems(1) have f0: "isl (plaidClient (calls_made tr) tok)" by force
  then obtain e where e: "plaidClient (calls_made tr) tok = Inl e" by (auto simp: isl_def)
  let ?tr = "tr @ [Attempt r, SetTimeout ms]"
  have c: "calls_made ?tr = Suc (calls_made tr)"
    by (simp add: calls_made_append calls_made_simps)
  have "getAssetReportWithRetries plaidClient tok ms (r - 1) ?tr
        = Some (Resolved v, ?tr @ failed_rounds (r - 1) ms j @ [Attempt (r - 1 - int j)])"
  proof (rule Suc.IH)
    show "\<forall>k<j. isl (plaidClient (calls_made ?tr + k) tok)"
    proof (intro allI impI)
      fix k assume "k < j"
      then have "Suc k < Suc j" by simp
      with Suc.prems(1) have "isl (plaidClient (calls_made tr + Suc k) tok)" by blast
      then show "isl (plaidClient (calls_made ?tr + k) tok)" by (simp only: c add_Suc_shift add_Suc_right add_Suc)
    qed
    show "plaidClient (calls_made ?tr + j) tok = Inr v" using Suc.prems(2) by (simp add: c)
    show "int j < r - 1" using Suc.prems(3) by simp
  qed
  moreover have "r \<noteq> 1" using Suc.prems(3) by simp
  ultimately show ?case
    by (subst getAssetReportWithRetries.simps) (simp add: e algebra_simps)
qed


lemma poll_exhausted:
  assumes "\<forall>k<n. isl (plaidClient (calls_made tr + k) tok)"
    and "1 \<le> n"
  shows "getAssetReportWithRetries plaidClient tok ms (int n) tr
         = Some (if n = 1 then Rejected (Message exhausted) else Pending,
                 tr @ failed_rounds (int n) ms n @ [Reject (Message exhausted)])"
  using assms
proof (induction n arbitrary: tr)
  case 0
  then show ?case by simp
next
  case (Suc n)
  from Suc.prems(1) have "isl (plaidClient (calls_made tr) tok)" by force
  then obtain e where e: "plaidClient (calls_made tr) tok = Inl e" by (auto simp: isl_def)
  show ?case
  proof (cases "n = 0")
    case True
    have "getAssetReportWithRetries plaidClient tok ms 1 tr
          = Some (Rejected (Message exhausted),
                  tr @ [Attempt 1, SetTimeout ms, Reject (Message exhausted)])"
      by (subst getAssetReportWithRetries.simps) (simp add: e)
    with True show ?thesis by simp
  next
    case False
    let ?tr = "tr @ [Attempt (int (Suc n)), SetTimeout ms]"
    have c: "calls_made ?tr = Suc (calls_made tr)"
      by (simp add: calls_made_append calls_made_simps)
    have a: "\<forall>k<n. isl (plaidClient (calls_made ?tr + k) tok)"
    proof (intro allI impI)
      fix k assume "k < n"
      then have "Suc k < Suc n" by simp
      with Suc.prems(1) have "isl (plaidClient (calls_made tr + Suc k) tok)" by blast
      then show "isl (plaidClient (calls_made ?tr + k) tok)" by (simp only: c add_Suc_shift add_Suc_right add_Suc)
    qed
    have b: "1 \<le> n" using False by simp
    have ih: "getAssetReportWithRetries plaidClient tok ms (int n) ?tr
        = Some (if n = 1 then Rejected (Message exhausted) else Pending,
                ?tr @ failed_rounds (int n) ms n @ [Reject (Message exhausted)])"
      by (rule Suc.IH[OF a b])
    have r: "int (Suc n) \<noteq> 1" "int (Suc n) - 1 = int n" using False by simp_all
    have "getAssetReportWithRetries plaidClient tok ms (int (Suc n)) tr
          = Option.bind (getAssetReportWithRetries plaidClient tok ms (int n) ?tr)
              (\<lambda>(inner, tr'). Some (then_resolve inner, tr'))"
      by (subst getAssetReportWithRetries.simps) (simp only: e r sum.case if_False)
    also have "\<dots> = Some (Pending, ?tr @ failed_rounds (int n) ms n @ [Reject (Message exhausted)])"
      by (simp only: ih) simp
    finally show ?thesis using False by simp
  qed
qed

lemma delays_append: "delays (a @ b) = delays a @ delays b"
  by (induction a rule: delays.induct) auto

lemma rejections_append: "rejections (a @ b) = rejections a @ rejections b"
  by (induction a rule: rejections.induct) auto

lemma budgets_failed_rounds: "budgets (failed_rounds r ms j) = map (\<lambda>k. r - int k) [0..<j]"
proof (induction j arbitrary: r)
  case 0
  show ?case by simp
next
  case (Suc j)
  have "map (\<lambda>k. r - int k) [0..<Suc j] = r # map (\<lambda>k. r - int (Suc k)) [0..<j]"
    by (simp only: upt_conv_Cons[of 0 "Suc j"] map_Suc_upt[symmetric]) (simp add: comp_def)
  also have "map (\<lambda>k. r - int (Suc k)) [0..<j] = map (\<lambda>k. r - 1 - int k) [0..<j]"
    by simp
  finally show ?case by (simp add: Suc.IH del: upt_Suc)
qed

lemma delays_failed_rounds: "delays (failed_rounds r ms j) = replicate j ms"
  by (induction j arbitrary: r) auto

lemma rejections_failed_rounds: "rejections (failed_rounds r ms j) = []"
  by (induction j arbitrary: r) auto

lemma calls_made_failed_rounds: "calls_made (failed_rounds r ms j) = j"
  by (simp add: calls_made_def budgets_failed_rounds)


subsection \<open>Success, exhaustion and the retry counter\<close>

text \<open>
  C4. With a budget of \<open>M\<close> attempts, one or more, of which the first \<open>M - 1\<close> fail and
  the last succeeds, the promise is fulfilled with the value of the last attempt; that
  attempt is the last event of the poll, \<open>M\<close> attempts were made in all, and \<open>M - 1\<close>
  timers of \<open>ms\<close> milliseconds ran, one after each failed attempt.
\<close>

theorem poll_success_on_last_attempt:
  fixes plaidClient :: "nat \<Rightarrow> string \<Rightarrow> 'e + 'v"
  assumes "1 \<le> M"
    and "\<forall>k<M - 1. isl (plaidClient k tok)"
    and "plaidClient (M - 1) tok = Inr v"
  shows "getAssetReportWithRetries plaidClient tok ms (int M) []
           = Some (Resolved v, failed_rounds (int M) ms (M - 1) @ [Attempt 1])
         \<and> calls_made (failed_rounds (int M) ms (M - 1) @ [Attempt 1 :: 'e event]) = M
         \<and> delays (failed_rounds (int M) ms (M - 1) @ [Attempt 1 :: 'e event]) = replicate (M - 1) ms"
proof -
  have "int (M - 1) < int M" using assms(1) by simp
  from poll_success[of "M - 1" plaidClient "[]" tok v "int M" ms] assms(2,3) this
  have "getAssetReportWithRetries plaidClient tok ms (int M) []
          = Some (Resolved v, failed_rounds (int M) ms (M - 1) @ [Attempt (int M - int (M - 1))])"
    by (simp add: calls_made_simps)
  moreover have "int M - int (M - 1) = 1" using assms(1) by simp
  ultimately show ?thesis using assms(1)
    by (simp add: calls_made_append calls_made_failed_rounds calls_made_simps
        delays_append delays_failed_rounds)
qed

text \<open>
  Three attempts one second apart, the third one successful with the value \<open>42\<close>.
\<close>

theorem poll_success_on_last_attempt_witness:
  "1 \<le> (3::nat)
   \<and> isl (ready_after 2 42 0 ''token'') \<and> isl (ready_after 2 42 1 ''token'')
   \<and> ready_after 2 42 2 ''token'' = Inr 42
   \<and> getAssetReportWithRetries (ready_after 2 42) ''token'' 1000 3 []
       = Some (Resolved 42, [Attempt 3, SetTimeout 1000, Attempt 2, SetTimeout 1000, Attempt 1])
   \<and> delays [Attempt 3, SetTimeout 1000, Attempt 2, SetTimeout 1000, Attempt 1 :: string event]
       = [1000, 1000]"
proof -
  have h1: "1 \<le> (3::nat)" by simp
  have h2: "\<forall>k<3 - 1. isl (ready_after 2 42 k ''token'')" by (simp add: ready_after_def)
  have h3: "ready_after 2 42 (3 - 1) ''token'' = Inr 42" by (simp add: ready_after_def)
  have fr: "failed_rounds 3 1000 (3 - 1) = [Attempt 3, SetTimeout 1000, Attempt 2, SetTimeout 1000 :: string event]"
    by (simp add: numeral_2_eq_2)
  from poll_success_on_last_attempt[of 3 "ready_after 2 42" "''token''" 42 1000] h1 h2 h3
  have "getAssetReportWithRetries (ready_after 2 42) ''token'' 1000 3 []
       = Some (Resolved 42, [Attempt 3, SetTimeout 1000, Attempt 2, SetTimeout 1000, Attempt 1])"
    by (simp only: fr of_nat_numeral) simp
  then show ?thesis by (simp add: ready_after_def)
qed

text \<open>
  C5, as amended. With a budget of \<open>M\<close> attempts, one or more, that all fail, exactly \<open>M\<close>
  attempts are made and exactly \<open>M\<close> timers of \<open>ms\<close> milliseconds run: the timer is
  started after every failed attempt, the last one included, and the exhaustion message
  is rejected only when that last timer has run out. The promise is never fulfilled, and
  with \<open>M = 1\<close> the caller receives the exhaustion message.
\<close>

theorem poll_all_attempts_fail:
  fixes plaidClient :: "nat \<Rightarrow> string \<Rightarrow> 'e + 'v"
  assumes "1 \<le> M"
    and "\<forall>k<M. isl (plaidClient k tok)"
  shows "\<exists>p. getAssetReportWithRetries plaidClient tok ms (int M) []
               = Some (p, failed_rounds (int M) ms M @ [Reject (Message exhausted)])
             \<and> (\<forall>v. p \<noteq> Resolved v)
             \<and> (M = 1 \<longrightarrow> p = Rejected (Message exhausted))
             \<and> calls_made (failed_rounds (int M) ms M @ [Reject (Message exhausted) :: 'e event]) = M
             \<and> delays (failed_rounds (int M) ms M @ [Reject (Message exhausted) :: 'e event])
                 = replicate M ms"
proof -
  from poll_exhausted[of M plaidClient "[]" tok ms] assms
  have "getAssetReportWithRetries plaidClient tok ms (int M) []
          = Some (if M = 1 then Rejected (Message exhausted) else Pending,
                  failed_rounds (int M) ms M @ [Reject (Message exhausted)])"
    by (simp add: calls_made_simps)
  then show ?thesis
    by (simp add: calls_made_append calls_made_failed_rounds calls_made_simps
        delays_append delays_failed_rounds)
qed

theorem poll_all_attempts_fail_witness:
  "1 \<le> (1::nat) \<and> isl (never_ready 0 ''token'')
   \<and> getAssetReportWithRetries never_ready ''token'' 1000 1 []
       = Some (Rejected (Message exhausted), [Attempt 1, SetTimeout 1000, Reject (Message exhausted)])"
proof -
  have h1: "1 \<le> (1::nat)" by simp
  have h2: "\<forall>k<1. isl (never_ready k ''token'')" by (simp add: never_ready_def)
  from poll_all_attempts_fail[of 1 never_ready "''token''" 1000] h2 show ?thesis
    by (auto simp: never_ready_def)
qed

text \<open>
  The claim as stated fails: with a budget of one attempt the poll waits for one timer,
  not for none, before it rejects; and with a budget of two the caller's promise is left
  pending rather than rejected.
\<close>

theorem poll_delay_after_final_failure:
  "map_option (length \<circ> delays \<circ> snd) (getAssetReportWithRetries never_ready ''token'' 1000 1 [])
     = Some 1
   \<and> map_option fst (getAssetReportWithRetries never_ready ''token'' 1000 2 []) = Some Pending"
proof -
  have f: "\<forall>k<n. isl (never_ready (calls_made ([] :: string event list) + k) ''token'')" for n
    by (simp add: never_ready_def)
  from poll_exhausted[of 1 never_ready "[]" "''token''" 1000, OF f]
       poll_exhausted[of 2 never_ready "[]" "''token''" 1000, OF f]
  show ?thesis by (simp add: numeral_2_eq_2)
qed

text \<open>
  C6, as amended. When every attempt of a budget of one or more fails, the poll rejects
  once, with the fixed message ``Ran out of retries while polling for asset report''. The
  message is not the error of an attempt and does not depend on it, and it is the same
  for every budget: it carries no count of the attempts made.
\<close>

theorem exhaustion_message_fixed:
  fixes plaidClient :: "nat \<Rightarrow> string \<Rightarrow> 'e + 'v"
  assumes "1 \<le> M"
    and "\<forall>k<M. isl (plaidClient k tok)"
  shows "\<exists>p tr. getAssetReportWithRetries plaidClient tok ms (int M) [] = Some (p, tr)
           \<and> rejections tr = [Message exhausted]
           \<and> (\<forall>e. AttemptError e \<notin> set (rejections tr))
           \<and> (\<forall>x. p = Rejected x \<longrightarrow> x = Message exhausted)"
proof -
  from poll_exhausted[of M plaidClient "[]" tok ms] assms
  have "getAssetReportWithRetries plaidClient tok ms (int M) []
          = Some (if M = 1 then Rejected (Message exhausted) else Pending,
                  failed_rounds (int M) ms M @ [Reject (Message exhausted)])"
    by (simp add: calls_made_simps)
  then show ?thesis
    by (simp add: rejections_append rejections_failed_rounds)
qed

theorem exhaustion_message_fixed_witness:
  "1 \<le> (3::nat)
   \<and> isl (never_ready 0 ''token'') \<and> isl (never_ready 1 ''token'')
   \<and> isl (never_ready 2 ''token'')
   \<and> (\<exists>p tr. getAssetReportWithRetries never_ready ''token'' 1000 3 [] = Some (p, tr)
           \<and> rejections tr = [Message exhausted]
           \<and> (\<forall>e. AttemptError e \<notin> set (rejections tr))
           \<and> (\<forall>x. p = Rejected x \<longrightarrow> x = Message exhausted))"
proof -
  have h2: "\<forall>k<3. isl (never_ready k ''token'')" by (simp add: never_ready_def)
  from exhaustion_message_fixed[of 3 never_ready "''token''" 1000] h2 show ?thesis
    by (simp add: never_ready_def)
qed

text \<open>
  The claim as stated fails: a poll of one attempt and a poll of three attempts reject
  with the same value.
\<close>

theorem exhaustion_carries_no_count:
  "map_option (rejections \<circ> snd) (getAssetReportWithRetries never_ready ''token'' 1000 1 [])
     = Some [Message exhausted]
   \<and> map_option (rejections \<circ> snd) (getAssetReportWithRetries never_ready ''token'' 1000 3 [])
     = Some [Message exhausted]
   \<and> map_option (calls_made \<circ> snd) (getAssetReportWithRetries never_ready ''token'' 1000 1 [])
     = Some 1
   \<and> map_option (calls_made \<circ> snd) (getAssetReportWithRetries never_ready ''token'' 1000 3 [])
     = Some 3"
proof -
  have f: "\<forall>k<n. isl (never_ready (calls_made ([] :: string event list) + k) ''token'')" for n
    by (simp add: never_ready_def)
  from poll_exhausted[of 1 never_ready "[]" "''token''" 1000, OF f]
       poll_exhausted[of 3 never_ready "[]" "''token''" 1000, OF f]
  show ?thesis
    by (simp add: numeral_3_eq_3 calls_made_simps)
qed




text \<open>
  C9. Let the budget be two or more, at most \<open>2 ^ 53\<close>, and let every attempt that the
  poll makes fail. Then the innermost invocation rejects with the exhaustion message, but
  the invocations around it pass on fulfilment only, so the promise of the caller stays
  pending. With a budget of one and a failing attempt the caller receives the exhaustion
  message. And whatever the remote service does, a rejection reaches the caller only when
  the budget is exactly one.
\<close>

theorem exhaustion_not_forwarded:
  fixes plaidClient :: "nat \<Rightarrow> string \<Rightarrow> 'e + 'v"
  shows "(2 \<le> r \<and> r \<le> 2 ^ 53 \<and> (\<forall>k<nat r. isl (plaidClient k tok)) \<longrightarrow>
            getAssetReportWithRetries plaidClient tok ms r []
              = Some (Pending, failed_rounds r ms (nat r) @ [Reject (Message exhausted)]))
       \<and> (isl (plaidClient 0 tok) \<longrightarrow>
            getAssetReportWithRetries plaidClient tok ms 1 []
              = Some (Rejected (Message exhausted),
                      [Attempt 1, SetTimeout ms, Reject (Message exhausted)]))
       \<and> (getAssetReportWithRetries plaidClient tok ms r [] = Some (Rejected x, tr) \<longrightarrow>
            r = 1 \<and> x = Message exhausted)"
proof -
  have a: "getAssetReportWithRetries plaidClient tok ms r []
              = Some (Pending, failed_rounds r ms (nat r) @ [Reject (Message exhausted)])"
    if "2 \<le> r" and all: "\<forall>k<nat r. isl (plaidClient k tok)"
  proof -
    have "1 \<le> nat r" "nat r \<noteq> 1" "int (nat r) = r" using that(1) by simp_all
    with poll_exhausted[of "nat r" plaidClient "[]" tok ms] all
    show ?thesis by (simp add: calls_made_simps)
  qed
  have b: "getAssetReportWithRetries plaidClient tok ms 1 []
              = Some (Rejected (Message exhausted),
                      [Attempt 1, SetTimeout ms, Reject (Message exhausted)])"
    if "isl (plaidClient 0 tok)"
  proof -
    from that obtain e where "plaidClient 0 tok = Inl e" by (auto simp: isl_def)
    then show ?thesis
      by (subst getAssetReportWithRetries.simps) (simp add: calls_made_simps)
  qed
  have c: "r = 1 \<and> x = Message exhausted"
    if run: "getAssetReportWithRetries plaidClient tok ms r [] = Some (Rejected x, tr)"
  proof -
    have nr: "then_resolve p \<noteq> Rejected x" for p :: "('e, 'v) promise"
      by (cases p) simp_all
    from run have "(case plaidClient (calls_made ([] :: 'e event list)) tok of
        Inr report \<Rightarrow> Some (Resolved report, [] @ [Attempt r])
      | Inl err \<Rightarrow>
          if r = 1
          then Some (Rejected (Message exhausted),
                     [] @ [Attempt r, SetTimeout ms, Reject (Message exhausted)])
          else Option.bind
                 (getAssetReportWithRetries plaidClient tok ms (r - 1)
                    ([] @ [Attempt r, SetTimeout ms]))
                 (\<lambda>(inner, tr'). Some (then_resolve inner, tr'))) = Some (Rejected x, tr)"
      by (subst (asm) getAssetReportWithRetries.simps)
    then show ?thesis
      by (auto simp: bind_eq_Some_conv nr split: sum.splits if_splits)
  qed
  from a b c show ?thesis by blast
qed

text \<open>
  A service whose report would be ready at the fourth call: with a budget of two both
  attempts fail and the caller's promise stays pending; with a budget of one the caller
  receives the rejection.
\<close>

theorem exhaustion_not_forwarded_witness:
  "2 \<le> (2::int) \<and> (2::int) \<le> 2 ^ 53
   \<and> isl (ready_after 3 42 0 ''token'') \<and> isl (ready_after 3 42 1 ''token'')
   \<and> getAssetReportWithRetries (ready_after 3 42) ''token'' 1000 2 []
       = Some (Pending, [Attempt 2, SetTimeout 1000, Attempt 1, SetTimeout 1000,
                         Reject (Message exhausted)])
   \<and> getAssetReportWithRetries (ready_after 3 42) ''token'' 1000 1 []
       = Some (Rejected (Message exhausted),
               [Attempt 1, SetTimeout 1000, Reject (Message exhausted)])"
proof -
  have h1: "2 \<le> (2::int)" and h2: "(2::int) \<le> 2 ^ 53" by simp_all
  have h3: "\<forall>k<nat 2. isl (ready_after 3 42 k ''token'')" by (simp add: ready_after_def)
  have h4: "isl (ready_after 3 42 0 ''token'')" "isl (ready_after 3 42 1 ''token'')"
    by (simp_all add: ready_after_def)
  have fr: "failed_rounds 2 1000 (nat 2)
            = [Attempt 2, SetTimeout 1000, Attempt 1, SetTimeout 1000 :: string event]"
    by (simp add: numeral_2_eq_2)
  note t2 = exhaustion_not_forwarded[of 2 "ready_after 3 42" "''token''" 1000]
  note t1 = exhaustion_not_forwarded[of 1 "ready_after 3 42" "''token''" 1000
      "Message exhausted" "[Attempt 1, SetTimeout 1000, Reject (Message exhausted)]"]
  from t2 h1 h2 h3 have r2: "getAssetReportWithRetries (ready_after 3 42) ''token'' 1000 2 []
       = Some (Pending, failed_rounds 2 1000 (nat 2) @ [Reject (Message exhausted)])"
    by blast
  from t1 h4(1) have r1: "getAssetReportWithRetries (ready_after 3 42) ''token'' 1000 1 []
       = Some (Rejected (Message exhausted),
               [Attempt 1, SetTimeout 1000, Reject (Message exhausted)])"
    by blast
  from r2 have "getAssetReportWithRetries (ready_after 3 42) ''token'' 1000 2 []
       = Some (Pending, [Attempt 2, SetTimeout 1000, Attempt 1, SetTimeout 1000,
                         Reject (Message exhausted)])"
    by (simp only: fr) simp
  with h1 h2 h4 r1 show ?thesis by blast
qed

end
